theory Spec2Isabelle
  imports Main
begin

section \<open>Python strings\<close>

text \<open>
  A Python \<^verbatim>\<open>str\<close> is modelled as an Isabelle \<^typ>\<open>string\<close>. A character stands for
  a Unicode code point below 256 (the Latin-1 block), read with \<^const>\<open>of_char\<close>;
  code points from 256 on are outside the model. The three character classes below
  are Python's own tables restricted to that block.
\<close>

definition code :: "char \<Rightarrow> nat" where
  "code c = of_char c"

text \<open>\<^verbatim>\<open>str.isspace\<close>, the class that \<^verbatim>\<open>str.strip()\<close> removes.\<close>

definition isspace :: "char \<Rightarrow> bool" where
  "isspace c = ((9 \<le> code c \<and> code c \<le> 13) \<or> (28 \<le> code c \<and> code c \<le> 32)
                \<or> code c = 133 \<or> code c = 160)"

text \<open>The upper-case letters that \<^verbatim>\<open>str.lower()\<close> moves: A-Z and the accented block
  U+00C0-U+00DE without the multiplication sign U+00D7.\<close>

definition isupper :: "char \<Rightarrow> bool" where
  "isupper c = ((65 \<le> code c \<and> code c \<le> 90) \<or> (192 \<le> code c \<and> code c \<le> 222 \<and> code c \<noteq> 215))"

definition lower_char :: "char \<Rightarrow> char" where
  "lower_char c = (if isupper c then char_of (code c + 32) else c)"

definition lower :: "string \<Rightarrow> string" where
  "lower s = map lower_char s"

definition strip :: "string \<Rightarrow> string" where
  "strip s = rev (dropWhile isspace (rev (dropWhile isspace s)))"

text \<open>
  \<^verbatim>\<open>str.replace(old, new)\<close>: the occurrences of \<open>old\<close> are found from the left and do
  not overlap. With an empty \<open>old\<close> Python puts \<open>new\<close> before every character and at
  the end.
\<close>

function replace :: "string \<Rightarrow> string \<Rightarrow> string \<Rightarrow> string" where
  "replace old new s =
     (if old = [] then new @ concat (map (\<lambda>c. c # new) s)
      else if s = [] then []
      else if take (length old) s = old then new @ replace old new (drop (length old) s)
      else hd s # replace old new (tl s))"
  by pat_completeness auto
termination
  by (relation "measure (\<lambda>(old, new, s). length s)") (auto simp: neq_Nil_conv)

declare replace.simps [simp del]

section \<open>Column Normalizer\<close>

text \<open>
  \<^verbatim>\<open>
  def clean_column(col: str) -> str:
      col = col.strip().lower()
      col = col.replace(" ", "_").replace("-", "_").replace("/", "_")
      col = col.replace("#", "number")
      col = col.replace("__", "_")
      return col
  \<close>
\<close>

definition clean_column :: "string \<Rightarrow> string" where
  "clean_column col =
     (let col1 = lower (strip col);
          col2 = replace ''/'' ''_'' (replace ''-'' ''_'' (replace '' '' ''_'' col1));
          col3 = replace ''#'' ''number'' col2;
          col4 = replace ''__'' ''_'' col3
      in col4)"


text \<open>A name in which the closing \<^verbatim>\<open>replace("__", "_")\<close> still finds something to do.\<close>

fun doubled :: "string \<Rightarrow> bool" where
  "doubled (a # b # cs) = ((a = CHR ''_'' \<and> b = CHR ''_'') \<or> doubled (b # cs))"
| "doubled cs = False"

text \<open>A string that \<^verbatim>\<open>strip()\<close> leaves alone: no white space at either end.\<close>

definition trimmed :: "string \<Rightarrow> bool" where
  "trimmed s = (s = [] \<or> (\<not> isspace (hd s) \<and> \<not> isspace (last s)))"

section \<open>Record Batch\<close>

text \<open>
  A pandas \<^verbatim>\<open>DataFrame\<close>: a row count (the index) and the columns in file order, each
  a label with its cells. Labels may repeat: \<^verbatim>\<open>df.columns = [...]\<close> only relabels.
  The cell type is a parameter where an operation does not look into the cells.
\<close>

record 'c batch =
  nrows :: nat
  columns :: "(string \<times> 'c list) list"

definition names :: "'c batch \<Rightarrow> string list" where
  "names b = map fst (columns b)"

text \<open>
  \<^verbatim>\<open>df[col]\<close>: the columns labelled \<open>col\<close>. pandas hands back a \<^verbatim>\<open>Series\<close> when there
  is one and a \<^verbatim>\<open>DataFrame\<close> when the label repeats.
\<close>

definition getitem :: "string \<Rightarrow> 'c batch \<Rightarrow> 'c list list" where
  "getitem col b = map snd (filter (\<lambda>(n, c). n = col) (columns b))"

text \<open>\<^verbatim>\<open>df[col] = f(df[col])\<close>, column by column, for a label that is present.\<close>

definition assign :: "string \<Rightarrow> ('c list \<Rightarrow> 'c list) \<Rightarrow> 'c batch \<Rightarrow> 'c batch" where
  "assign col f b =
     b\<lparr>columns := map (\<lambda>(n, c). if n = col then (n, f c) else (n, c)) (columns b)\<rparr>"

text \<open>
  \<^verbatim>\<open>df.columns = [clean_column(c) for c in df.columns]\<close>
\<close>

definition normalize_columns :: "'c batch \<Rightarrow> 'c batch" where
  "normalize_columns b = b\<lparr>columns := map (\<lambda>(n, c). (clean_column n, c)) (columns b)\<rparr>"

text \<open>How often a label occurs among the columns.\<close>

definition occurrences :: "string \<Rightarrow> 'c batch \<Rightarrow> nat" where
  "occurrences col b = length (getitem col b)"

section \<open>Timestamp Stamper\<close>

text \<open>
  \<^verbatim>\<open>df["load_time"] = datetime.utcnow()\<close>

  The clock is read once; its value is the parameter \<open>now\<close>. Assigning a scalar to a
  label broadcasts it over the rows: a new label is appended as the last column, an
  existing label keeps its place and has its cells overwritten (every column that
  carries the label, when it repeats).
\<close>

definition stamp :: "'c \<Rightarrow> 'c batch \<Rightarrow> 'c batch" where
  "stamp now b =
     (if ''load_time'' \<in> set (names b)
      then assign ''load_time'' (\<lambda>c. replicate (nrows b) now) b
      else b\<lparr>columns := columns b @ [(''load_time'', replicate (nrows b) now)]\<rparr>)"

section \<open>Cells\<close>

text \<open>
  The file is read with \<^verbatim>\<open>dtype=str\<close>: a cell starts as text, or as the missing value
  (a float NaN) where the file had nothing. Coercion makes numbers, whole numbers and
  calendar dates. A 64-bit float is a dyadic rational or an infinity; it is kept by
  its exact decimal expansion, mantissa and count of fractional digits (\<open>(125, 1)\<close> is
  12.5), and the two infinities by their sign (\<open>True\<close> is the negative one).
\<close>

type_synonym decimal = "int \<times> nat"

record date =
  year :: nat
  month :: nat
  day :: nat

datatype cell = Missing | Text string | Float64 decimal | Infinity bool | Int64 int | DateV date

datatype error = TypeError | ValueError | OverflowError | AttributeError

section \<open>The library\<close>

text \<open>
  The script calls pandas and the built-in \<^verbatim>\<open>str\<close>; their code is not part of the
  repository. What the script needs of them is a parameter of the model, and what is
  proved of the script holds for every library:

    \<^item> \<open>to_numeric\<close> is \<^verbatim>\<open>pd.to_numeric(series, errors="coerce")\<close> on a \<^verbatim>\<open>Series\<close>: with
      \<^verbatim>\<open>coerce\<close> a cell that does not parse becomes the missing value and nothing is
      raised;
    \<^item> \<open>astype_Int64\<close> is \<^verbatim>\<open>series.astype("Int64")\<close>, which raises when the cast is not
      safe;
    \<^item> \<open>to_datetime_date\<close> is \<^verbatim>\<open>pd.to_datetime(series, errors="coerce").dt.date\<close> on a
      \<^verbatim>\<open>Series\<close> of \<^verbatim>\<open>str\<close>; the layout may be inferred from the whole column, so it
      takes the column and not one text;
    \<^item> \<open>str_value\<close> is \<^verbatim>\<open>str\<close> on one value that is neither text nor missing.
\<close>

record library =
  to_numeric :: "cell list \<Rightarrow> cell list"
  astype_Int64 :: "cell list \<Rightarrow> error + cell list"
  to_datetime_date :: "string list \<Rightarrow> error + cell list"
  str_value :: "cell \<Rightarrow> string"

text \<open>
  What \<^verbatim>\<open>astype(str)\<close> makes of one cell: text stays, and the missing value of a
  column as read from the file (a float NaN in a column of Python objects) becomes
  the three letters \<^verbatim>\<open>nan\<close>, as \<^verbatim>\<open>str(float("nan"))\<close> is.
\<close>

definition py_str :: "library \<Rightarrow> cell \<Rightarrow> string" where
  "py_str L c = (case c of Text s \<Rightarrow> s | Missing \<Rightarrow> ''nan'' | _ \<Rightarrow> str_value L c)"

definition astype_str :: "library \<Rightarrow> cell list \<Rightarrow> cell list" where
  "astype_str L series = map (\<lambda>c. Text (py_str L c)) series"

section \<open>Dates\<close>

subsection \<open>The regular expression \<^verbatim>\<open>\b[A-Z]{2,4}\b\<close>\<close>

text \<open>
  \<^verbatim>\<open>\w\<close> on a \<^verbatim>\<open>str\<close> pattern: the underscore and what \<^verbatim>\<open>str.isalnum\<close> accepts
  (in the Latin-1 block: digits, letters, the ordinal indicators, the micro sign, the
  superscript digits and the vulgar fractions). \<^verbatim>\<open>[A-Z]\<close> is the ASCII range.
\<close>

definition isword :: "char \<Rightarrow> bool" where
  "isword c =
     (let n = code c in
        (48 \<le> n \<and> n \<le> 57) \<or> (65 \<le> n \<and> n \<le> 90) \<or> n = 95 \<or> (97 \<le> n \<and> n \<le> 122)
        \<or> n = 170 \<or> n = 178 \<or> n = 179 \<or> n = 181 \<or> n = 185 \<or> n = 186
        \<or> (188 \<le> n \<and> n \<le> 190) \<or> (192 \<le> n \<and> n \<le> 214) \<or> (216 \<le> n \<and> n \<le> 246)
        \<or> 248 \<le> n)"

definition isAZ :: "char \<Rightarrow> bool" where
  "isAZ c = (65 \<le> code c \<and> code c \<le> 90)"

text \<open>
  \<^verbatim>\<open>\b\<close> between the character before the position (\<open>pw\<close>: it is a word character;
  false at the start of the text) and the rest \<open>s\<close> from the position on.
\<close>

definition boundary :: "bool \<Rightarrow> string \<Rightarrow> bool" where
  "boundary pw s = (pw \<noteq> (s \<noteq> [] \<and> isword (hd s)))"

text \<open>\<open>k\<close> letters of \<^verbatim>\<open>[A-Z]\<close> at the head of \<open>s\<close> and then \<^verbatim>\<open>\b\<close>.\<close>

definition letters_then_boundary :: "string \<Rightarrow> nat \<Rightarrow> bool" where
  "letters_then_boundary s k =
     (k \<le> length s \<and> list_all isAZ (take k s) \<and> boundary True (drop k s))"

text \<open>The length of the match at a position, if there is one: \<^verbatim>\<open>{2,4}\<close> is greedy, so
  four letters are tried first, then three, then two.\<close>

definition match_at :: "bool \<Rightarrow> string \<Rightarrow> nat option" where
  "match_at pw s = (if boundary pw s then find (letters_then_boundary s) [4, 3, 2] else None)"

text \<open>
  \<^verbatim>\<open>re.sub(r"\b[A-Z]{2,4}\b", "", x)\<close>: the text is scanned from the left, a match is
  dropped and the scan goes on behind it, any other character is kept.
\<close>

function re_sub :: "bool \<Rightarrow> string \<Rightarrow> string" where
  "re_sub pw s =
     (if s = [] then []
      else case match_at pw s of
             Some k \<Rightarrow> re_sub True (drop k s)
           | None \<Rightarrow> hd s # re_sub (isword (hd s)) (tl s))"
  by pat_completeness auto
termination
  by (relation "measure (\<lambda>(pw, s). length s)")
     (auto simp: match_at_def neq_Nil_conv split: if_splits)

declare re_sub.simps [simp del]

text \<open>\<^verbatim>\<open>lambda x: re.sub(r"\b[A-Z]{2,4}\b", "", x).strip()\<close>\<close>

definition strip_tz :: "string \<Rightarrow> string" where
  "strip_tz x = strip (re_sub False x)"


text \<open>
  \<^verbatim>\<open>
  def parse_datetime_with_tz(series):
      series_clean = series.astype(str).apply(
          lambda x: re.sub(r"\b[A-Z]{2,4}\b", "", x).strip()
      )
      return pd.to_datetime(series_clean, errors="coerce").dt.date
  \<close>
  \<^verbatim>\<open>parse_date\<close> has the same body.
\<close>

definition parse_datetime_with_tz :: "library \<Rightarrow> cell list \<Rightarrow> error + cell list" where
  "parse_datetime_with_tz L series =
     (let series_clean = map (\<lambda>c. strip_tz (py_str L c)) series
      in to_datetime_date L series_clean)"

definition parse_date :: "library \<Rightarrow> cell list \<Rightarrow> error + cell list" where
  "parse_date L series =
     (let series_clean = map (\<lambda>c. strip_tz (py_str L c)) series
      in to_datetime_date L series_clean)"

section \<open>Type Coercion Stage\<close>

definition numeric_fields :: "string list" where
  "numeric_fields =
     [''settlement_amount'', ''authorization_amount'', ''total_amount'',
      ''reserved15'', ''reserved16'', ''reserved17'', ''reserved18'', ''reserved19'',
      ''reserved20'']"

definition date_time_fields :: "string list" where
  "date_time_fields = [''settlement_date_time'', ''submit_date_time'']"

definition reserved_fields :: "string list" where
  "reserved_fields =
     [''reserved15'', ''reserved16'', ''reserved17'', ''reserved18'', ''reserved19'',
      ''reserved20'']"

definition string_columns :: "string list" where
  "string_columns =
     [''bank_account_number'', ''routing_number'', ''card_number'', ''customer_id'',
      ''invoice_number'']"

text \<open>
  \<^verbatim>\<open>
  if col in df.columns:
      df[col] = f(df[col])
  \<close>
  for an \<open>f\<close> that wants a \<^verbatim>\<open>Series\<close>. A label that is absent is passed over. A label
  that repeats makes \<^verbatim>\<open>df[col]\<close> a \<^verbatim>\<open>DataFrame\<close>, on which \<^verbatim>\<open>pd.to_numeric\<close> (arg must be
  a list, tuple, 1-d array, or Series) and \<^verbatim>\<open>re.sub\<close> inside the date parsers (expected
  string or bytes-like object) raise \<^verbatim>\<open>TypeError\<close>.
\<close>

definition convert_column ::
  "(cell list \<Rightarrow> error + cell list) \<Rightarrow> string \<Rightarrow> cell batch \<Rightarrow> error + cell batch" where
  "convert_column f col b =
     (if col \<in> set (names b) then
        (case getitem col b of
           [series] \<Rightarrow> (case f series of Inl e \<Rightarrow> Inl e | Inr v \<Rightarrow> Inr (assign col (\<lambda>c. v) b))
         | frame \<Rightarrow> Inl TypeError)
      else Inr b)"

text \<open>
  \<^verbatim>\<open>df[col] = df[col].astype(str)\<close> works on a \<^verbatim>\<open>DataFrame\<close> as on a \<^verbatim>\<open>Series\<close>, so a
  repeated label has each of its columns recast.
\<close>

definition force_text :: "library \<Rightarrow> string \<Rightarrow> cell batch \<Rightarrow> error + cell batch" where
  "force_text L col b =
     (if col \<in> set (names b) then Inr (assign col (astype_str L) b) else Inr b)"

text \<open>A \<^verbatim>\<open>for col in [...]\<close> loop; an exception ends it.\<close>

fun for_each ::
  "(string \<Rightarrow> cell batch \<Rightarrow> error + cell batch) \<Rightarrow> string list \<Rightarrow> cell batch \<Rightarrow> error + cell batch" where
  "for_each step [] b = Inr b"
| "for_each step (col # cols) b =
     (case step col b of Inl e \<Rightarrow> Inl e | Inr b' \<Rightarrow> for_each step cols b')"

text \<open>One statement after another.\<close>

definition and_then ::
  "error + cell batch \<Rightarrow> (cell batch \<Rightarrow> error + cell batch) \<Rightarrow> error + cell batch" where
  "and_then r k = (case r of Inl e \<Rightarrow> Inl e | Inr b \<Rightarrow> k b)"

text \<open>\<^verbatim>\<open>df[col] = pd.to_numeric(df[col], errors="coerce")\<close> over \<^verbatim>\<open>numeric_fields\<close>.\<close>

definition numeric_loop :: "library \<Rightarrow> cell batch \<Rightarrow> error + cell batch" where
  "numeric_loop L b = for_each (convert_column (\<lambda>s. Inr (to_numeric L s))) numeric_fields b"

text \<open>\<^verbatim>\<open>df[col] = parse_datetime_with_tz(df[col])\<close> and
  \<^verbatim>\<open>df["business_day"] = parse_date(df["business_day"])\<close>.\<close>

definition date_loop :: "library \<Rightarrow> cell batch \<Rightarrow> error + cell batch" where
  "date_loop L b =
     and_then (for_each (convert_column (parse_datetime_with_tz L)) date_time_fields b)
       (convert_column (parse_date L) ''business_day'')"

text \<open>\<^verbatim>\<open>df[col] = pd.to_numeric(df[col], errors="coerce").astype("Int64")\<close>\<close>

definition to_Int64 :: "library \<Rightarrow> cell list \<Rightarrow> error + cell list" where
  "to_Int64 L series = astype_Int64 L (to_numeric L series)"

definition reserved_loop :: "library \<Rightarrow> cell batch \<Rightarrow> error + cell batch" where
  "reserved_loop L b = for_each (convert_column (to_Int64 L)) reserved_fields b"

text \<open>\<^verbatim>\<open>df[col] = df[col].astype(str)\<close> over \<^verbatim>\<open>string_columns\<close>.\<close>

definition string_loop :: "library \<Rightarrow> cell batch \<Rightarrow> error + cell batch" where
  "string_loop L b = for_each (force_text L) string_columns b"

text \<open>Lines 56 to 82 of the script, in their order.\<close>

definition coercion_stage :: "library \<Rightarrow> cell batch \<Rightarrow> error + cell batch" where
  "coercion_stage L b =
     and_then (and_then (and_then (numeric_loop L b) (date_loop L)) (reserved_loop L))
       (string_loop L)"

text \<open>The labels the stage names.\<close>

definition group_names :: "string list" where
  "group_names =
     numeric_fields @ date_time_fields @ [''business_day''] @ reserved_fields @ string_columns"

text \<open>The labels whose conversion wants a single column.\<close>

definition typed_names :: "string list" where
  "typed_names = numeric_fields @ date_time_fields @ [''business_day''] @ reserved_fields"

subsection \<open>The stage, column by column\<close>

text \<open>Every column gets \<open>h\<close> of its label and cells; labels, order and row count stay.\<close>

definition map_columns :: "(string \<Rightarrow> cell list \<Rightarrow> cell list) \<Rightarrow> cell batch \<Rightarrow> cell batch" where
  "map_columns h b = b\<lparr>columns := map (\<lambda>(n, c). (n, h n c)) (columns b)\<rparr>"

text \<open>\<open>g\<close> on the columns whose label is in \<open>cols\<close>, nothing on the others.\<close>

definition only :: "string list \<Rightarrow> (cell list \<Rightarrow> cell list) \<Rightarrow> string \<Rightarrow> cell list \<Rightarrow> cell list" where
  "only cols g n = (if n \<in> set cols then g else (\<lambda>c. c))"

text \<open>A conversion does not raise on a column, and what it returns there.\<close>

definition succeeds :: "(cell list \<Rightarrow> error + cell list) \<Rightarrow> cell list \<Rightarrow> bool" where
  "succeeds f s = (case f s of Inl e \<Rightarrow> False | Inr v \<Rightarrow> True)"

definition result :: "(cell list \<Rightarrow> error + cell list) \<Rightarrow> cell list \<Rightarrow> cell list" where
  "result f s = (case f s of Inl e \<Rightarrow> s | Inr v \<Rightarrow> v)"

text \<open>
  What the statements of the stage, taken in their order, make of one column, going
  by its label.
\<close>

definition coerce :: "library \<Rightarrow> string \<Rightarrow> cell list \<Rightarrow> cell list" where
  "coerce L n c =
     (let c1 = (if n \<in> set numeric_fields then to_numeric L c else c);
          c2 = (if n \<in> set date_time_fields then result (parse_datetime_with_tz L) c1 else c1);
          c3 = (if n = ''business_day'' then result (parse_date L) c2 else c2);
          c4 = (if n \<in> set reserved_fields then result (to_Int64 L) c3 else c3);
          c5 = (if n \<in> set string_columns then astype_str L c4 else c4)
      in c5)"

text \<open>
  The batches on which no statement of the stage raises: no label of a numeric, date
  or reserved column repeats, the date parsers do not raise on the date columns, and
  the cast to \<^verbatim>\<open>Int64\<close> does not raise on the reserved columns, which the numeric loop
  has converted before.
\<close>

definition completes :: "library \<Rightarrow> cell batch \<Rightarrow> bool" where
  "completes L b =
     (list_all (\<lambda>col. occurrences col b \<le> 1) typed_names \<and>
      list_all (\<lambda>col. list_all (succeeds (parse_datetime_with_tz L)) (getitem col b))
        (date_time_fields @ [''business_day'']) \<and>
      list_all (\<lambda>col. list_all (\<lambda>s. succeeds (to_Int64 L) (to_numeric L s)) (getitem col b))
        reserved_fields)"

subsection \<open>Facts of pandas that a statement may assume\<close>


text \<open>
  \<^verbatim>\<open>pd.to_numeric(series, errors="coerce")\<close> returns a cell for each cell, cannot
  parse the text \<open>u\<close>, so that \<^verbatim>\<open>coerce\<close> puts the missing value in its place, and
  leaves a missing value missing.
\<close>

definition coerces_to_missing :: "library \<Rightarrow> string \<Rightarrow> bool" where
  "coerces_to_missing L u =
     (\<forall>s. length (to_numeric L s) = length s \<and>
          (\<forall>k < length s.
             (s ! k = Text u \<longrightarrow> to_numeric L s ! k = Missing) \<and>
             (s ! k = Missing \<longrightarrow> to_numeric L s ! k = Missing)))"



section \<open>A sample library\<close>

text \<open>
  One library, to run the script on the examples of the specification. It works cell
  by cell and knows less than pandas: plain decimal numerals, returned as floats, and
  dates in the ISO layout. It is meant for columns on which this is what pandas does:
  numerals of at most fifteen significant digits, not all of them integers, and dates
  written in one layout. No general statement below is about it.
\<close>

subsection \<open>\<^verbatim>\<open>str\<close> of a value\<close>

definition isdigit :: "char \<Rightarrow> bool" where
  "isdigit c = (48 \<le> code c \<and> code c \<le> 57)"

definition digit_char :: "nat \<Rightarrow> char" where
  "digit_char n = char_of (48 + n mod 10)"

function str_nat :: "nat \<Rightarrow> string" where
  "str_nat n = (if n < 10 then [digit_char n] else str_nat (n div 10) @ [digit_char n])"
  by pat_completeness auto
termination
  by (relation "measure (\<lambda>n. n)") auto

declare str_nat.simps [simp del]

definition str_int :: "int \<Rightarrow> string" where
  "str_int i = (if i < 0 then ''-'' else []) @ str_nat (nat \<bar>i\<bar>)"

text \<open>\<^verbatim>\<open>str.zfill(w)\<close> on a string of digits.\<close>

definition zfill :: "nat \<Rightarrow> string \<Rightarrow> string" where
  "zfill w s = replicate (w - length s) CHR ''0'' @ s"

definition str_date :: "date \<Rightarrow> string" where
  "str_date d = zfill 4 (str_nat (year d)) @ ''-'' @ zfill 2 (str_nat (month d))
                  @ ''-'' @ zfill 2 (str_nat (day d))"

text \<open>
  The positional expansion of a decimal, with at least one fractional digit and no
  further closing zeros, as Python prints a float of moderate size.
\<close>

definition str_decimal :: "decimal \<Rightarrow> string" where
  "str_decimal d =
     (case d of (m, e) \<Rightarrow>
        let a = nat \<bar>m\<bar>;
            frac = rev (dropWhile (\<lambda>c. c = CHR ''0'') (rev (zfill e (str_nat (a mod 10 ^ e)))))
        in (if m < 0 then ''-'' else []) @ str_nat (a div 10 ^ e) @ ''.''
             @ (if e = 0 \<or> frac = [] then ''0'' else frac))"

fun sample_str :: "cell \<Rightarrow> string" where
  "sample_str (Text s) = s"
| "sample_str Missing = ''nan''"
| "sample_str (Float64 d) = str_decimal d"
| "sample_str (Infinity negative) = (if negative then ''-inf'' else ''inf'')"
| "sample_str (Int64 i) = str_int i"
| "sample_str (DateV d) = str_date d"

subsection \<open>Plain decimal numerals\<close>

text \<open>
  Blanks around, an optional sign, digits with an optional fractional part; anything
  else is taken not to parse.
\<close>

definition isblank :: "char \<Rightarrow> bool" where
  "isblank c = (code c = 32 \<or> (9 \<le> code c \<and> code c \<le> 13))"

definition nat_of_digits :: "string \<Rightarrow> nat" where
  "nat_of_digits ds = foldl (\<lambda>n c. 10 * n + (code c - 48)) 0 ds"

definition parse_unsigned :: "string \<Rightarrow> decimal option" where
  "parse_unsigned s =
     (let ip = takeWhile isdigit s; r = dropWhile isdigit s
      in case r of
           [] \<Rightarrow> if ip = [] then None else Some (int (nat_of_digits ip), 0)
         | c # fp \<Rightarrow>
             if c = CHR ''.'' \<and> list_all isdigit fp \<and> (ip \<noteq> [] \<or> fp \<noteq> [])
             then Some (int (nat_of_digits (ip @ fp)), length fp) else None)"

definition parse_decimal :: "string \<Rightarrow> decimal option" where
  "parse_decimal s =
     (case rev (dropWhile isblank (rev (dropWhile isblank s))) of
        [] \<Rightarrow> None
      | c # cs \<Rightarrow>
          if c = CHR ''-'' then map_option (\<lambda>(m, e). (- m, e)) (parse_unsigned cs)
          else if c = CHR ''+'' then parse_unsigned cs
          else parse_unsigned (c # cs))"

fun sample_numeric_cell :: "cell \<Rightarrow> cell" where
  "sample_numeric_cell (Text s) = (case parse_decimal s of None \<Rightarrow> Missing | Some d \<Rightarrow> Float64 d)"
| "sample_numeric_cell (DateV d) = Missing"
| "sample_numeric_cell c = c"

definition sample_to_numeric :: "cell list \<Rightarrow> cell list" where
  "sample_to_numeric series = map sample_numeric_cell series"

subsection \<open>The safe cast to whole numbers\<close>

text \<open>
  The cast is refused with \<^verbatim>\<open>TypeError\<close> (cannot safely cast non-equivalent float64
  to int64) when a number of the column is not whole; nothing is rounded. A missing
  value stays missing.
\<close>

fun whole :: "cell \<Rightarrow> bool" where
  "whole (Float64 (m, e)) = (m mod 10 ^ e = 0 \<and> - (2 ^ 63) \<le> m div 10 ^ e \<and> m div 10 ^ e < 2 ^ 63)"
| "whole (Int64 i) = (- (2 ^ 63) \<le> i \<and> i < 2 ^ 63)"
| "whole Missing = True"
| "whole c = False"

fun int_cell :: "cell \<Rightarrow> cell" where
  "int_cell (Float64 (m, e)) = Int64 (m div 10 ^ e)"
| "int_cell c = c"

definition sample_astype_Int64 :: "cell list \<Rightarrow> error + cell list" where
  "sample_astype_Int64 series =
     (if list_all whole series then Inr (map int_cell series) else Inl TypeError)"

subsection \<open>Dates in the ISO layout\<close>

text \<open>
  \<^verbatim>\<open>YYYY-MM-DD\<close>, alone or followed by a blank or \<^verbatim>\<open>T\<close> and a clock time \<^verbatim>\<open>HH:MM\<close>,
  \<^verbatim>\<open>HH:MM:SS\<close> or \<^verbatim>\<open>HH:MM:SS.f\<close>. The date must exist in the calendar. The time is
  dropped; any other text is taken not to parse and gives the missing value.
\<close>

definition leap :: "nat \<Rightarrow> bool" where
  "leap y = (y mod 4 = 0 \<and> (y mod 100 \<noteq> 0 \<or> y mod 400 = 0))"

definition days_in_month :: "nat \<Rightarrow> nat \<Rightarrow> nat" where
  "days_in_month y m =
     (if m \<in> {1, 3, 5, 7, 8, 10, 12} then 31
      else if m \<in> {4, 6, 9, 11} then 30
      else if m = 2 then (if leap y then 29 else 28)
      else 0)"

definition two_digits_below :: "nat \<Rightarrow> char \<Rightarrow> char \<Rightarrow> bool" where
  "two_digits_below n a b = (isdigit a \<and> isdigit b \<and> nat_of_digits [a, b] < n)"

fun clock :: "string \<Rightarrow> bool" where
  "clock (h1 # h2 # c1 # m1 # m2 # rest) =
     (two_digits_below 24 h1 h2 \<and> c1 = CHR '':'' \<and> two_digits_below 60 m1 m2 \<and>
      (case rest of
         [] \<Rightarrow> True
       | c2 # s1 # s2 # frac \<Rightarrow>
           c2 = CHR '':'' \<and> two_digits_below 60 s1 s2 \<and>
           (case frac of [] \<Rightarrow> True
            | p # ds \<Rightarrow> p = CHR ''.'' \<and> ds \<noteq> [] \<and> list_all isdigit ds)
       | _ \<Rightarrow> False))"
| "clock s = False"

fun parse_iso_date :: "string \<Rightarrow> date option" where
  "parse_iso_date (y1 # y2 # y3 # y4 # d1 # m1 # m2 # d2 # n1 # n2 # rest) =
     (let y = nat_of_digits [y1, y2, y3, y4]; m = nat_of_digits [m1, m2];
          d = nat_of_digits [n1, n2]
      in if list_all isdigit [y1, y2, y3, y4, m1, m2, n1, n2] \<and> d1 = CHR ''-'' \<and> d2 = CHR ''-''
            \<and> 1 \<le> y \<and> 1 \<le> d \<and> d \<le> days_in_month y m
            \<and> (rest = [] \<or> ((hd rest = CHR '' '' \<or> hd rest = CHR ''T'') \<and> clock (tl rest)))
         then Some \<lparr>year = y, month = m, day = d\<rparr> else None)"
| "parse_iso_date s = None"

definition sample_date_cell :: "string \<Rightarrow> cell" where
  "sample_date_cell s = (case parse_iso_date s of None \<Rightarrow> Missing | Some d \<Rightarrow> DateV d)"

definition sample_to_datetime_date :: "string list \<Rightarrow> error + cell list" where
  "sample_to_datetime_date series = Inr (map sample_date_cell series)"

definition sample :: library where
  "sample = \<lparr>to_numeric = sample_to_numeric, astype_Int64 = sample_astype_Int64,
             to_datetime_date = sample_to_datetime_date, str_value = sample_str\<rparr>"

section \<open>Properties of the string operations\<close>


lemma lower_char_idem: "lower_char (lower_char c) = lower_char c"
  by (auto simp: lower_char_def isupper_def code_def)

lemma isupper_lower_char: "\<not> isupper (lower_char c)"
  by (auto simp: lower_char_def isupper_def code_def)

lemma isspace_lower_char: "isspace (lower_char c) = isspace c"
  by (auto simp: lower_char_def isupper_def isspace_def code_def)

lemma replace_Nil: "old \<noteq> [] \<Longrightarrow> replace old new [] = []"
  by (simp add: replace.simps)

lemma replace_char: "replace [a] new s = concat (map (\<lambda>c. if c = a then new else [c]) s)"
  by (induction s) (auto simp: replace.simps)

lemma replace_single: "replace [a] [b] s = map (\<lambda>c. if c = a then b else c) s"
  by (induction s) (auto simp: replace.simps)

lemma replace_absent: "a \<notin> set s \<Longrightarrow> replace [a] new s = s"
  by (induction s) (auto simp: replace.simps)

lemma set_replace: "old \<noteq> [] \<Longrightarrow> set (replace old new s) \<subseteq> set s \<union> set new"
proof (induction old new s rule: replace.induct)
  case (1 old new s)
  show ?case
  proof (cases "s = []")
    case True thus ?thesis using 1 by (simp add: replace.simps)
  next
    case False
    show ?thesis
    proof (cases "take (length old) s = old")
      case True
      have "set (drop (length old) s) \<subseteq> set s" by (rule set_drop_subset)
      with 1 True False show ?thesis by (subst replace.simps) auto
    next
      case F2: False
      have "set (tl s) \<subseteq> set s" using False by (cases s) auto
      moreover have "hd s \<in> set s" using False by simp
      ultimately show ?thesis using 1 F2 False by (subst replace.simps) auto
    qed
  qed
qed

lemma replace_uu_Cons2:
  "replace ''__'' ''_'' (a # b # cs) =
     (if a = CHR ''_'' \<and> b = CHR ''_'' then CHR ''_'' # replace ''__'' ''_'' cs
      else a # replace ''__'' ''_'' (b # cs))"
  by (subst replace.simps) auto

lemma replace_uu_short: "replace ''__'' ''_'' [a] = [a]" "replace ''__'' ''_'' [] = []"
  by (simp_all add: replace.simps)

lemma length_replace:
  "old \<noteq> [] \<Longrightarrow> length new \<le> length old \<Longrightarrow> length (replace old new s) \<le> length s"
proof (induction old new s rule: replace.induct)
  case (1 old new s)
  show ?case
  proof (cases "s = []")
    case True thus ?thesis using 1 by (simp add: replace.simps)
  next
    case False
    show ?thesis
    proof (cases "take (length old) s = old")
      case True
      then have "length (take (length old) s) = length old" by simp
      then have "length old \<le> length s" by simp
      with 1 True False show ?thesis by (subst replace.simps) auto
    next
      case F2: False
      with 1 False show ?thesis by (subst replace.simps) (cases s, auto)
    qed
  qed
qed

lemma length_replace_uu: "length (replace ''__'' ''_'' s) \<le> length s"
  by (rule length_replace) simp_all

lemma replace_uu_fixed: "(replace ''__'' ''_'' s = s) = (\<not> doubled s)"
proof (induction s rule: doubled.induct)
  case (1 a b cs)
  show ?case
  proof (cases "a = CHR ''_'' \<and> b = CHR ''_''")
    case True
    have "length (replace ''__'' ''_'' (a # b # cs)) < length (a # b # cs)"
      using True length_replace_uu [of cs] by (simp add: replace_uu_Cons2)
    then have "replace ''__'' ''_'' (a # b # cs) \<noteq> a # b # cs" by force
    with True show ?thesis by simp
  next
    case False
    with 1 show ?thesis by (auto simp: replace_uu_Cons2)
  qed
qed (simp_all add: replace_uu_short)

lemma replace_hd:
  "old \<noteq> [] \<Longrightarrow> new \<noteq> [] \<Longrightarrow> s \<noteq> [] \<Longrightarrow>
     replace old new s \<noteq> [] \<and> (hd (replace old new s) = hd new \<or> hd (replace old new s) = hd s)"
  by (subst (1 2 3) replace.simps) auto

lemma replace_last:
  "old \<noteq> [] \<Longrightarrow> new \<noteq> [] \<Longrightarrow> s \<noteq> [] \<Longrightarrow>
     last (replace old new s) = last new \<or> last (replace old new s) = last s"
proof (induction old new s rule: replace.induct)
  case (1 old new s)
  show ?case
  proof (cases "take (length old) s = old")
    case True
    show ?thesis
    proof (cases "drop (length old) s = []")
      case T2: True
      with 1 True show ?thesis by (subst (1 2) replace.simps) (simp add: replace_Nil)
    next
      case F2: False
      then have "replace old new (drop (length old) s) \<noteq> []"
        using replace_hd [of old new "drop (length old) s"] 1 by simp
      moreover have "last (drop (length old) s) = last s" using F2 by simp
      ultimately show ?thesis using 1 True F2 by (subst (1 2) replace.simps) auto
    qed
  next
    case False
    show ?thesis
    proof (cases "tl s = []")
      case True
      with 1 False show ?thesis by (subst (1 2) replace.simps) (cases s, auto simp: replace_Nil)
    next
      case F2: False
      then have "replace old new (tl s) \<noteq> []"
        using replace_hd [of old new "tl s"] 1 by simp
      moreover have "last (tl s) = last s" using F2 by (cases s) auto
      ultimately show ?thesis using 1 False F2 by (subst (1 2) replace.simps) auto
    qed
  qed
qed

lemma trimmed_replace:
  "old \<noteq> [] \<Longrightarrow> new \<noteq> [] \<Longrightarrow> \<not> isspace (hd new) \<Longrightarrow> \<not> isspace (last new) \<Longrightarrow>
     trimmed s \<Longrightarrow> trimmed (replace old new s)"
  using replace_hd [of old new s] replace_last [of old new s]
  by (cases "s = []") (auto simp: trimmed_def replace_Nil)

lemma trimmed_strip: "trimmed (strip s)"
proof -
  let ?a = "dropWhile isspace s"
  let ?b = "dropWhile isspace (rev ?a)"
  show ?thesis
  proof (cases "?b = []")
    case True thus ?thesis by (simp add: trimmed_def strip_def)
  next
    case False
    then have l: "\<not> isspace (hd ?b)" by (metis hd_dropWhile)
    from False have an: "?a \<noteq> []" by (cases "?a = []") simp_all
    then have h: "\<not> isspace (hd ?a)" by (metis hd_dropWhile)
    obtain xs where b: "rev ?a = takeWhile isspace (rev ?a) @ ?b" by simp
    have "?a = rev ?b @ rev (takeWhile isspace (rev ?a))"
      by (metis rev_append rev_rev_ident takeWhile_dropWhile_id)
    then have "hd ?a = hd (rev ?b)" using False by (metis hd_append2 rev_is_Nil_conv)
    with h l False show ?thesis by (simp add: trimmed_def strip_def last_rev)
  qed
qed

lemma strip_trimmed: "trimmed s \<Longrightarrow> strip s = s"
proof (cases "s = []")
  case True thus ?thesis by (simp add: strip_def)
next
  case False
  assume "trimmed s"
  with False have h: "\<not> isspace (hd s)" and l: "\<not> isspace (last s)" by (auto simp: trimmed_def)
  from h False have 1: "dropWhile isspace s = s" by (cases s) auto
  from l False have "\<not> isspace (hd (rev s))" by (simp add: hd_rev)
  with False have 2: "dropWhile isspace (rev s) = rev s" by (cases "rev s") auto
  show ?thesis by (simp add: strip_def 1 2)
qed

lemma trimmed_lower: "trimmed s \<Longrightarrow> trimmed (lower s)"
  by (auto simp: trimmed_def lower_def hd_map last_map isspace_lower_char)

lemma chain_subset:
  "A \<subseteq> (L - S1) \<union> U1 \<Longrightarrow> B \<subseteq> (A - S2) \<union> U2 \<Longrightarrow> C \<subseteq> B \<union> U3 \<Longrightarrow>
   U1 \<subseteq> U \<Longrightarrow> U2 \<subseteq> U \<Longrightarrow> U3 \<subseteq> U \<Longrightarrow> S2 \<union> S1 = S \<Longrightarrow> C \<subseteq> (L - S) \<union> U"
  by blast

lemma outside_subset: "C \<subseteq> (L - S) \<union> U \<Longrightarrow> x \<in> S \<Longrightarrow> x \<notin> U \<Longrightarrow> x \<notin> C"
  by blast

lemma clean_column_unfold:
  "clean_column col =
     replace ''__'' ''_'' (replace ''#'' ''number''
       (replace ''/'' ''_'' (replace ''-'' ''_'' (replace '' '' ''_'' (lower (strip col))))))"
  by (simp add: clean_column_def)

lemma set_clean_column:
  "set (clean_column col) \<subseteq>
     (set (lower (strip col)) - {CHR '' '', CHR ''-'', CHR ''/'', CHR ''#''}) \<union> set ''_number''"
proof -
  let ?c2 = "replace ''/'' ''_'' (replace ''-'' ''_'' (replace '' '' ''_'' (lower (strip col))))"
  have 2: "set ?c2 \<subseteq> (set (lower (strip col)) - {CHR '' '', CHR ''-'', CHR ''/''}) \<union> {CHR ''_''}"
    by (auto simp: replace_single)
  have 3: "set (replace ''#'' ''number'' ?c2) \<subseteq> (set ?c2 - {CHR ''#''}) \<union> set ''number''"
    unfolding replace_char by (auto split: if_splits)
  have 4: "set (clean_column col) \<subseteq> set (replace ''#'' ''number'' ?c2) \<union> set ''_''"
    unfolding clean_column_unfold by (rule set_replace) simp
  show ?thesis by (rule chain_subset [OF 2 3 4]) simp_all
qed

lemma clean_column_no_separators:
  "CHR '' '' \<notin> set (clean_column col)" "CHR ''-'' \<notin> set (clean_column col)"
  "CHR ''/'' \<notin> set (clean_column col)" "CHR ''#'' \<notin> set (clean_column col)"
  by (rule outside_subset [OF set_clean_column], simp, simp)+

lemma clean_column_no_upper: "c \<in> set (clean_column col) \<Longrightarrow> \<not> isupper c"
proof -
  assume "c \<in> set (clean_column col)"
  then have "c \<in> set (lower (strip col)) \<or> c \<in> set ''_number''"
    using set_clean_column [of col] by blast
  then show ?thesis
  proof
    assume "c \<in> set (lower (strip col))"
    then show ?thesis by (auto simp: lower_def isupper_lower_char)
  next
    assume "c \<in> set ''_number''"
    then show ?thesis by (auto simp: isupper_def code_def)
  qed
qed

lemma lower_fixed: "(\<And>c. c \<in> set s \<Longrightarrow> \<not> isupper c) \<Longrightarrow> lower s = s"
  by (induction s) (auto simp: lower_def lower_char_def)

lemma trimmed_clean_column: "trimmed (clean_column col)"
  unfolding clean_column_unfold
  by (intro trimmed_replace trimmed_lower trimmed_strip) (simp_all add: isspace_def code_def)

lemma clean_column_again:
  "clean_column (clean_column col) = replace ''__'' ''_'' (clean_column col)"
proof -
  let ?t = "clean_column col"
  have "lower (strip ?t) = ?t"
    by (simp add: strip_trimmed trimmed_clean_column lower_fixed clean_column_no_upper)
  then show ?thesis
    using clean_column_no_separators [of col]
    by (subst clean_column_unfold) (simp add: replace_absent)
qed

section \<open>Column Normalizer: properties\<close>

text \<open>
  Claim C9. For every raw column name that contains a space, a hyphen or a slash, the
  normalized name contains no space, no hyphen and no slash.
\<close>

theorem clean_column_separator_free:
  "CHR '' '' \<in> set col \<or> CHR ''-'' \<in> set col \<or> CHR ''/'' \<in> set col \<Longrightarrow>
     CHR '' '' \<notin> set (clean_column col) \<and> CHR ''-'' \<notin> set (clean_column col)
       \<and> CHR ''/'' \<notin> set (clean_column col)"
  by (simp add: clean_column_no_separators)

theorem clean_column_separator_free_witness:
  "(CHR '' '' \<in> set ''Settlement Date/Time'' \<or> CHR ''-'' \<in> set ''Settlement Date/Time''
      \<or> CHR ''/'' \<in> set ''Settlement Date/Time'')
   \<and> CHR '' '' \<notin> set (clean_column ''Settlement Date/Time'')
   \<and> CHR ''-'' \<notin> set (clean_column ''Settlement Date/Time'')
   \<and> CHR ''/'' \<notin> set (clean_column ''Settlement Date/Time'')
   \<and> clean_column ''Settlement Date/Time'' = ''settlement_date_time''"
proof -
  have h: "CHR '' '' \<in> set ''Settlement Date/Time'' \<or> CHR ''-'' \<in> set ''Settlement Date/Time''
      \<or> CHR ''/'' \<in> set ''Settlement Date/Time''" by simp
  have v: "clean_column ''Settlement Date/Time'' = ''settlement_date_time''" by code_simp
  show ?thesis using h v clean_column_separator_free [OF h] by simp
qed


text \<open>
  Claim C4, as stated, fails: normalizing \<^verbatim>\<open>L2 - Tax\<close> gives \<^verbatim>\<open>l2__tax\<close> (a name of
  the destination schema), and normalizing that again gives \<^verbatim>\<open>l2_tax\<close>.
\<close>

theorem clean_column_not_idempotent:
  "clean_column (clean_column ''L2 - Tax'') \<noteq> clean_column ''L2 - Tax''"
  by code_simp

text \<open>
  Claim C4, amended. Normalizing a normalized name again returns it unchanged exactly
  when the normalized name has no doubled underscore: the closing replacement makes a
  single pass, so a run of three or more separators leaves a doubled one behind.
\<close>

theorem clean_column_idempotent_iff:
  "(clean_column (clean_column col) = clean_column col) = (\<not> doubled (clean_column col))"
  by (simp add: clean_column_again replace_uu_fixed)

theorem clean_column_idempotent_iff_witness:
  "\<not> doubled (clean_column ''Invoice #'')
   \<and> clean_column (clean_column ''Invoice #'') = clean_column ''Invoice #''
   \<and> clean_column ''Invoice #'' = ''invoice_number''"
proof -
  have v: "clean_column ''Invoice #'' = ''invoice_number''" by code_simp
  have d: "\<not> doubled ''invoice_number''" by simp
  show ?thesis using v d clean_column_idempotent_iff [of "''Invoice #''"] by simp
qed

section \<open>Column normalization step and Timestamp Stamper: properties\<close>

lemma filter_two:
  assumes "i < j" "j < length xs" "P (xs ! i)" "P (xs ! j)"
  shows "2 \<le> length (filter P xs)"
proof -
  have xs: "xs = take j xs @ xs ! j # drop (Suc j) xs"
    using assms(2) by (rule id_take_nth_drop)
  have "xs ! i \<in> set (take j xs)"
    using assms(1,2) by (auto simp: in_set_conv_nth intro!: exI [of _ i])
  then have "xs ! i \<in> set (filter P (take j xs))" using assms(3) by simp
  then have "1 \<le> length (filter P (take j xs))"
    by (cases "filter P (take j xs)") auto
  moreover have "length (filter P xs) = length (filter P (take j xs)) + length (filter P (xs ! j # drop (Suc j) xs))"
    by (subst xs) simp
  ultimately show ?thesis using assms(4) by simp
qed

text \<open>
  Claim C3, as stated, fails: two raw headers that normalize to the same name do not
  leave one column holding the later values. Both columns stay, under the same label,
  the earlier one with its own values.
\<close>

theorem normalize_columns_collision:
  "getitem ''invoice_number''
     (normalize_columns \<lparr>nrows = 1, columns = [(''Invoice #'', [Text ''A'']), (''invoice-number'', [Text ''B''])]\<rparr>)
   = [[Text ''A''], [Text ''B'']]
   \<and> occurrences ''invoice_number''
     (normalize_columns \<lparr>nrows = 1, columns = [(''Invoice #'', [Text ''A'']), (''invoice-number'', [Text ''B''])]\<rparr>)
   \<noteq> 1"
proof -
  have a: "clean_column ''Invoice #'' = ''invoice_number''" by code_simp
  have b: "clean_column ''invoice-number'' = ''invoice_number''" by code_simp
  show ?thesis by (simp add: normalize_columns_def getitem_def occurrences_def a b)
qed

text \<open>
  Claim C3, amended. The column-normalization step only relabels: the batch keeps its
  row count, its columns in their order and every column's values. When two raw
  headers normalize to the same canonical name, both columns remain, each with its own
  values, and the canonical name labels at least two columns; nothing is overwritten
  and the step has no error or warning to give.
\<close>

theorem normalize_columns_keeps_both:
  assumes "i < j" and "j < length (columns b)"
    and "clean_column (fst (columns b ! i)) = clean_column (fst (columns b ! j))"
  shows "nrows (normalize_columns b) = nrows b
       \<and> names (normalize_columns b) = map clean_column (names b)
       \<and> map snd (columns (normalize_columns b)) = map snd (columns b)
       \<and> columns (normalize_columns b) ! i = (clean_column (fst (columns b ! j)), snd (columns b ! i))
       \<and> columns (normalize_columns b) ! j = (clean_column (fst (columns b ! j)), snd (columns b ! j))
       \<and> 2 \<le> occurrences (clean_column (fst (columns b ! j))) (normalize_columns b)"
proof -
  let ?n = "clean_column (fst (columns b ! j))"
  let ?xs = "columns (normalize_columns b)"
  have len: "length ?xs = length (columns b)" by (simp add: normalize_columns_def)
  have nth: "?xs ! k = (clean_column (fst (columns b ! k)), snd (columns b ! k))"
    if "k < length (columns b)" for k
    using that by (simp add: normalize_columns_def case_prod_beta)
  have i: "i < length (columns b)" using assms(1,2) by simp
  have 1: "?xs ! i = (?n, snd (columns b ! i))" using nth [OF i] assms(3) by simp
  have 2: "?xs ! j = (?n, snd (columns b ! j))" using nth [OF assms(2)] by simp
  have "2 \<le> length (filter (\<lambda>(n, c). n = ?n) ?xs)"
    by (rule filter_two [OF assms(1)]) (simp_all add: len assms(2) 1 2)
  then have 3: "2 \<le> occurrences ?n (normalize_columns b)"
    by (simp add: occurrences_def getitem_def)
  have 4: "names (normalize_columns b) = map clean_column (names b)"
    by (simp add: names_def normalize_columns_def case_prod_beta comp_def)
  have 5: "map snd ?xs = map snd (columns b)"
    by (simp add: normalize_columns_def case_prod_beta comp_def)
  have 6: "nrows (normalize_columns b) = nrows b" by (simp add: normalize_columns_def)
  from 1 2 3 4 5 6 show ?thesis by blast
qed

theorem normalize_columns_keeps_both_witness:
  "columns (normalize_columns \<lparr>nrows = 1, columns = [(''Invoice #'', [Text ''A'']), (''invoice-number'', [Text ''B''])]\<rparr>) ! 0
     = (''invoice_number'', [Text ''A''])
   \<and> columns (normalize_columns \<lparr>nrows = 1, columns = [(''Invoice #'', [Text ''A'']), (''invoice-number'', [Text ''B''])]\<rparr>) ! 1
     = (''invoice_number'', [Text ''B''])"
proof -
  let ?b = "\<lparr>nrows = 1, columns = [(''Invoice #'', [Text ''A'']), (''invoice-number'', [Text ''B''])]\<rparr> :: cell batch"
  have a: "clean_column ''Invoice #'' = ''invoice_number''" by code_simp
  have b: "clean_column ''invoice-number'' = ''invoice_number''" by code_simp
  have h1: "(0::nat) < 1" by simp
  have h2: "1 < length (columns ?b)" by simp
  have h3: "clean_column (fst (columns ?b ! 0)) = clean_column (fst (columns ?b ! 1))"
    by (simp add: a b)
  show ?thesis using normalize_columns_keeps_both [OF h1 h2 h3] by (simp add: b)
qed

text \<open>
  Claim C7, as stated, fails on a batch that already has a column labelled
  \<^verbatim>\<open>load_time\<close>: the assignment overwrites that column where it stands, so no column is
  added and the last column is another one.
\<close>

theorem stamp_existing_column:
  "length (columns (stamp (7::nat) \<lparr>nrows = 1, columns = [(''load_time'', [0]), (''total_amount'', [5])]\<rparr>)) = 2
   \<and> fst (last (columns (stamp (7::nat) \<lparr>nrows = 1, columns = [(''load_time'', [0]), (''total_amount'', [5])]\<rparr>)))
       = ''total_amount''"
  by (simp add: stamp_def names_def assign_def)

lemma getitem_absent: "col \<notin> set (names b) \<Longrightarrow> getitem col b = []"
  by (force simp: getitem_def names_def filter_empty_conv)

lemma overwrite_names:
  "map fst (map (\<lambda>(n, c). if n = l then (n, v) else (n, c)) xs) = map fst xs"
  by (induction xs) auto

lemma overwrite_labelled:
  "list_all (\<lambda>c. c = v)
     (map snd (filter (\<lambda>(n, c). n = l) (map (\<lambda>(n, c). if n = l then (n, v) else (n, c)) xs)))"
  by (induction xs) (auto split: if_splits)

lemma overwrite_others:
  "filter (\<lambda>(n, c). n \<noteq> l) (map (\<lambda>(n, c). if n = l then (n, v) else (n, c)) xs)
     = filter (\<lambda>(n, c). n \<noteq> l) xs"
  by (induction xs) auto

text \<open>
  Claim C7, amended. Whatever the batch, after the stamper a column labelled
  \<^verbatim>\<open>load_time\<close> exists, every column so labelled has one cell per row and every cell
  holds the one clock reading taken for the batch, the row count is the same and the
  other columns are as they were. Only where the column goes depends on the batch:
  if no column was labelled \<^verbatim>\<open>load_time\<close>, exactly one column is added, as the last
  one; if one was, no column is added, the labels stay as they are and the labelled
  column is overwritten where it stands.
\<close>

theorem stamp_load_time:
  "nrows (stamp now b) = nrows b
   \<and> ''load_time'' \<in> set (names (stamp now b))
   \<and> list_all (\<lambda>c. c = replicate (nrows b) now) (getitem ''load_time'' (stamp now b))
   \<and> filter (\<lambda>(n, c). n \<noteq> ''load_time'') (columns (stamp now b))
       = filter (\<lambda>(n, c). n \<noteq> ''load_time'') (columns b)
   \<and> (''load_time'' \<notin> set (names b) \<longrightarrow>
        columns (stamp now b) = columns b @ [(''load_time'', replicate (nrows b) now)])
   \<and> (''load_time'' \<in> set (names b) \<longrightarrow>
        names (stamp now b) = names b \<and> length (columns (stamp now b)) = length (columns b))"
proof (cases "''load_time'' \<in> set (names b)")
  case True
  let ?f = "\<lambda>(n, c). if n = ''load_time'' then (n, replicate (nrows b) now) else (n, c)"
  have c: "columns (stamp now b) = map ?f (columns b)"
    using True by (simp add: stamp_def assign_def)
  have 1: "nrows (stamp now b) = nrows b" using True by (simp add: stamp_def assign_def)
  have 2: "names (stamp now b) = names b"
    unfolding names_def c by (rule overwrite_names)
  have 3: "list_all (\<lambda>c. c = replicate (nrows b) now) (getitem ''load_time'' (stamp now b))"
    unfolding getitem_def c by (rule overwrite_labelled)
  have 4: "filter (\<lambda>(n, c). n \<noteq> ''load_time'') (columns (stamp now b))
         = filter (\<lambda>(n, c). n \<noteq> ''load_time'') (columns b)"
    unfolding c by (rule overwrite_others)
  have 5: "length (columns (stamp now b)) = length (columns b)" by (simp add: c)
  show ?thesis using True 1 2 3 4 5 by simp
next
  case False
  have c: "columns (stamp now b) = columns b @ [(''load_time'', replicate (nrows b) now)]"
    using False by (simp add: stamp_def)
  have 1: "nrows (stamp now b) = nrows b" using False by (simp add: stamp_def)
  have 2: "''load_time'' \<in> set (names (stamp now b))" by (simp add: names_def c)
  have 3: "getitem ''load_time'' (stamp now b) = [replicate (nrows b) now]"
    using getitem_absent [OF False] by (simp add: getitem_def c)
  have "\<And>n c. (n, c) \<in> set (columns b) \<Longrightarrow> n \<noteq> ''load_time''"
    using False by (force simp: names_def)
  then have 4: "filter (\<lambda>(n, c). n \<noteq> ''load_time'') (columns (stamp now b))
         = filter (\<lambda>(n, c). n \<noteq> ''load_time'') (columns b)"
    by (simp add: c)
  show ?thesis using False c 1 2 3 4 by simp
qed

theorem stamp_load_time_witness:
  "columns (stamp (7::nat) \<lparr>nrows = 2, columns = [(''total_amount'', [5, 6])]\<rparr>)
     = [(''total_amount'', [5, 6]), (''load_time'', [7, 7])]
   \<and> names (stamp (7::nat) \<lparr>nrows = 1, columns = [(''load_time'', [0]), (''total_amount'', [5])]\<rparr>)
     = [''load_time'', ''total_amount'']"
proof -
  let ?b1 = "\<lparr>nrows = 2, columns = [(''total_amount'', [5, 6::nat])]\<rparr>"
  let ?b2 = "\<lparr>nrows = 1, columns = [(''load_time'', [0::nat]), (''total_amount'', [5])]\<rparr>"
  have h1: "''load_time'' \<notin> set (names ?b1)" by (simp add: names_def)
  have h2: "''load_time'' \<in> set (names ?b2)" by (simp add: names_def)
  have r: "replicate 2 (7::nat) = [7, 7]" by (simp add: numeral_2_eq_2)
  from stamp_load_time [of 7 ?b1] h1
  have a: "columns (stamp 7 ?b1) = columns ?b1 @ [(''load_time'', replicate (nrows ?b1) 7)]"
    by blast
  from stamp_load_time [of 7 ?b2] h2
  have b: "names (stamp 7 ?b2) = names ?b2"
    by blast
  show ?thesis unfolding a b by (simp add: r names_def)
qed

section \<open>Type Coercion Stage: properties\<close>

lemma assign_map_columns: "assign col f b = map_columns (only [col] f) b"
proof -
  have "(\<lambda>(n, c). if n = col then (n, f c) else (n, c)) = (\<lambda>(n, c). (n, only [col] f n c))"
    by (auto simp: only_def fun_eq_iff)
  then show ?thesis by (simp add: assign_def map_columns_def)
qed

lemma map_columns_id: "map_columns (only [] g) b = b"
  by (simp add: map_columns_def only_def)

lemma map_columns_comp:
  "map_columns h2 (map_columns h1 b) = map_columns (\<lambda>n c. h2 n (h1 n c)) b"
  by (simp add: map_columns_def case_prod_beta comp_def)

lemma names_map_columns [simp]: "names (map_columns h b) = names b"
  by (simp add: map_columns_def names_def case_prod_beta comp_def)

lemma nrows_map_columns [simp]: "nrows (map_columns h b) = nrows b"
  by (simp add: map_columns_def)

lemma length_map_columns [simp]: "length (columns (map_columns h b)) = length (columns b)"
  by (simp add: map_columns_def)

lemma nth_map_columns:
  "i < length (columns b) \<Longrightarrow>
   columns (map_columns h b) ! i = (fst (columns b ! i), h (fst (columns b ! i)) (snd (columns b ! i)))"
  by (simp add: map_columns_def case_prod_beta)

lemma getitem_map_list:
  "map snd (filter (\<lambda>(n, c). n = col) (map (\<lambda>(n, c). (n, h n c)) xs))
     = map (h col) (map snd (filter (\<lambda>(n, c). n = col) xs))"
  by (induction xs) auto

lemma getitem_map_columns: "getitem col (map_columns h b) = map (h col) (getitem col b)"
  by (simp add: getitem_def map_columns_def getitem_map_list)

lemma occurrences_map_columns [simp]: "occurrences col (map_columns h b) = occurrences col b"
  by (simp add: occurrences_def getitem_map_columns)

lemma in_names_iff: "(col \<in> set (names b)) = (getitem col b \<noteq> [])"
  by (force simp: names_def getitem_def filter_empty_conv)

lemma assign_const:
  assumes "getitem col b = [series]"
  shows "assign col (\<lambda>c. g series) b = assign col g b"
proof -
  have "\<And>n c. (n, c) \<in> set (columns b) \<Longrightarrow> n = col \<Longrightarrow> c = series"
  proof -
    fix n c assume "(n, c) \<in> set (columns b)" "n = col"
    then have "c \<in> set (getitem col b)" by (force simp: getitem_def)
    with assms show "c = series" by simp
  qed
  then have "map (\<lambda>(n, c). if n = col then (n, g series) else (n, c)) (columns b)
           = map (\<lambda>(n, c). if n = col then (n, g c) else (n, c)) (columns b)"
    by (intro map_cong) auto
  then show ?thesis by (simp add: assign_def)
qed

lemma assign_absent: "getitem col b = [] \<Longrightarrow> assign col g b = b"
proof -
  assume "getitem col b = []"
  then have "\<And>n c. (n, c) \<in> set (columns b) \<Longrightarrow> n \<noteq> col"
    by (auto simp: getitem_def filter_empty_conv)
  then have "map (\<lambda>(n, c). if n = col then (n, g c) else (n, c)) (columns b) = columns b"
    by (intro map_idI) auto
  then show ?thesis by (simp add: assign_def)
qed

text \<open>One guarded assignment returns exactly when the label does not repeat and the
  conversion does not raise; a repeated label raises \<^verbatim>\<open>TypeError\<close>.\<close>

lemma convert_column_Inr:
  "(convert_column f col b = Inr b') =
     (occurrences col b \<le> 1 \<and> list_all (succeeds f) (getitem col b)
      \<and> b' = map_columns (only [col] (result f)) b)"
proof (cases "getitem col b")
  case Nil
  then show ?thesis
    by (auto simp: convert_column_def in_names_iff occurrences_def assign_absent
        simp flip: assign_map_columns)
next
  case (Cons s rest)
  show ?thesis
  proof (cases rest)
    case Nil
    with Cons have g: "getitem col b = [s]" by simp
    have a: "assign col (\<lambda>c. result f s) b = assign col (result f) b"
      by (rule assign_const [OF g])
    show ?thesis
    proof (cases "f s")
      case (Inl e)
      then show ?thesis
        by (simp add: convert_column_def in_names_iff occurrences_def g succeeds_def)
    next
      case (Inr v)
      then have r: "result f s = v" by (simp add: result_def)
      show ?thesis using a Inr
        by (auto simp: convert_column_def in_names_iff occurrences_def g succeeds_def r
            simp flip: assign_map_columns)
    qed
  next
    case (Cons s2 rest2)
    with \<open>getitem col b = s # rest\<close> show ?thesis
      by (simp add: convert_column_def in_names_iff occurrences_def)
  qed
qed

lemma convert_column_repeated:
  "2 \<le> occurrences col b \<Longrightarrow> convert_column f col b = Inl TypeError"
proof -
  assume a: "2 \<le> occurrences col b"
  then obtain s s2 rest where g: "getitem col b = s # s2 # rest"
    by (cases "getitem col b"; cases "tl (getitem col b)") (auto simp: occurrences_def)
  then show ?thesis by (simp add: convert_column_def in_names_iff)
qed

lemma for_each_Inr:
  "distinct cols \<Longrightarrow>
   (for_each (convert_column f) cols b = Inr b') =
     (list_all (\<lambda>col. occurrences col b \<le> 1 \<and> list_all (succeeds f) (getitem col b)) cols
      \<and> b' = map_columns (only cols (result f)) b)"
proof (induction cols arbitrary: b)
  case Nil
  show ?case by (auto simp: map_columns_id)
next
  case (Cons col cols)
  then have d: "col \<notin> set cols" "distinct cols" by auto
  let ?b1 = "map_columns (only [col] (result f)) b"
  have g: "\<And>c. c \<in> set cols \<Longrightarrow> getitem c ?b1 = getitem c b"
    using d by (auto simp: getitem_map_columns only_def)
  have l: "list_all (\<lambda>c. occurrences c ?b1 \<le> 1 \<and> list_all (succeeds f) (getitem c ?b1)) cols
         = list_all (\<lambda>c. occurrences c b \<le> 1 \<and> list_all (succeeds f) (getitem c b)) cols"
    using g by (auto simp: list_all_iff)
  have m: "map_columns (only cols (result f)) ?b1 = map_columns (only (col # cols) (result f)) b"
    using d by (auto simp: map_columns_def only_def case_prod_beta)
  have "(for_each (convert_column f) (col # cols) b = Inr b')
      = (\<exists>b1. convert_column f col b = Inr b1 \<and> for_each (convert_column f) cols b1 = Inr b')"
    by (cases "convert_column f col b") simp_all
  also have "\<dots> = (occurrences col b \<le> 1 \<and> list_all (succeeds f) (getitem col b)
                  \<and> for_each (convert_column f) cols ?b1 = Inr b')"
    by (auto simp: convert_column_Inr)
  also have "\<dots> = (occurrences col b \<le> 1 \<and> list_all (succeeds f) (getitem col b)
                  \<and> list_all (\<lambda>c. occurrences c b \<le> 1 \<and> list_all (succeeds f) (getitem c b)) cols
                  \<and> b' = map_columns (only (col # cols) (result f)) b)"
    by (simp only: Cons.IH [OF d(2)] l m)
  finally show ?case by auto
qed

lemma force_text_eq: "force_text L col b = Inr (map_columns (only [col] (astype_str L)) b)"
  by (simp add: force_text_def in_names_iff assign_absent flip: assign_map_columns)

lemma astype_str_idem: "astype_str L (astype_str L c) = astype_str L c"
  by (simp add: astype_str_def py_str_def)

lemma for_each_force_text:
  "for_each (force_text L) cols b = Inr (map_columns (only cols (astype_str L)) b)"
proof (induction cols arbitrary: b)
  case Nil
  show ?case by (simp add: map_columns_id)
next
  case (Cons col cols)
  have m: "map_columns (only cols (astype_str L)) (map_columns (only [col] (astype_str L)) b)
        = map_columns (only (col # cols) (astype_str L)) b"
    by (auto simp: map_columns_def only_def case_prod_beta astype_str_idem)
  show ?case by (simp add: force_text_eq [of L col b] Cons.IH m)
qed

lemma for_each_snoc:
  "for_each step (cols @ [col]) b = and_then (for_each step cols b) (step col)"
  by (induction cols arbitrary: b) (auto simp: and_then_def split: sum.splits)

lemma and_then_Inr: "(and_then r k = Inr b') = (\<exists>b1. r = Inr b1 \<and> k b1 = Inr b')"
  by (cases r) (simp_all add: and_then_def)

lemma parse_date_eq: "parse_date = parse_datetime_with_tz"
  by (simp add: fun_eq_iff parse_date_def parse_datetime_with_tz_def)

lemma distinct_numeric_fields: "distinct numeric_fields"
  by (simp add: numeric_fields_def)

lemma distinct_reserved_fields: "distinct reserved_fields"
  by (simp add: reserved_fields_def)

lemma distinct_date_fields: "distinct (date_time_fields @ [''business_day''])"
  by (simp add: date_time_fields_def)

lemma reserved_numeric: "set reserved_fields \<subseteq> set numeric_fields"
  by (simp add: reserved_fields_def numeric_fields_def)

lemma reserved_not_date: "set reserved_fields \<inter> set (date_time_fields @ [''business_day'']) = {}"
  by (simp add: reserved_fields_def date_time_fields_def)

lemma numeric_not_date: "set numeric_fields \<inter> set (date_time_fields @ [''business_day'']) = {}"
  by (simp add: numeric_fields_def date_time_fields_def)

lemma reserved_not_string: "set reserved_fields \<inter> set string_columns = {}"
  by (simp add: reserved_fields_def string_columns_def)

lemma numeric_not_string: "set numeric_fields \<inter> set string_columns = {}"
  by (simp add: numeric_fields_def string_columns_def)

lemma numeric_loop_Inr:
  "(numeric_loop L b = Inr b') =
     (list_all (\<lambda>col. occurrences col b \<le> 1) numeric_fields
      \<and> b' = map_columns (only numeric_fields (to_numeric L)) b)"
proof -
  have s: "succeeds (\<lambda>s. Inr (to_numeric L s)) = (\<lambda>s. True)"
    by (simp add: succeeds_def fun_eq_iff)
  have r: "result (\<lambda>s. Inr (to_numeric L s)) = to_numeric L"
    by (simp add: result_def fun_eq_iff)
  show ?thesis
    by (simp add: numeric_loop_def for_each_Inr [OF distinct_numeric_fields] s r list_all_iff)
qed

lemma date_loop_Inr:
  "(date_loop L b = Inr b') =
     (list_all (\<lambda>col. occurrences col b \<le> 1 \<and>
                  list_all (succeeds (parse_datetime_with_tz L)) (getitem col b))
        (date_time_fields @ [''business_day''])
      \<and> b' = map_columns (only (date_time_fields @ [''business_day''])
                 (result (parse_datetime_with_tz L))) b)"
proof -
  have "date_loop L b = for_each (convert_column (parse_datetime_with_tz L))
                          (date_time_fields @ [''business_day'']) b"
    by (simp only: date_loop_def for_each_snoc parse_date_eq)
  then show ?thesis
    by (simp only: for_each_Inr [OF distinct_date_fields])
qed

lemma reserved_loop_Inr:
  "(reserved_loop L b = Inr b') =
     (list_all (\<lambda>col. occurrences col b \<le> 1 \<and>
                  list_all (succeeds (to_Int64 L)) (getitem col b)) reserved_fields
      \<and> b' = map_columns (only reserved_fields (result (to_Int64 L))) b)"
  by (simp only: reserved_loop_def for_each_Inr [OF distinct_reserved_fields])

lemma string_loop_eq:
  "string_loop L b = Inr (map_columns (only string_columns (astype_str L)) b)"
  by (simp add: string_loop_def for_each_force_text)

lemma coerce_only:
  "coerce L n c =
     only string_columns (astype_str L) n
       (only reserved_fields (result (to_Int64 L)) n
         (only (date_time_fields @ [''business_day'']) (result (parse_datetime_with_tz L)) n
           (only numeric_fields (to_numeric L) n c)))"
proof -
  have "''business_day'' \<notin> set date_time_fields" by (simp add: date_time_fields_def)
  then show ?thesis
    by (auto simp: coerce_def only_def Let_def parse_date_eq)
qed

lemma getitem_date_after:
  assumes "col \<in> set (date_time_fields @ [''business_day''])"
  shows "getitem col (map_columns (only numeric_fields g) b) = getitem col b"
proof -
  have "col \<notin> set numeric_fields" using assms numeric_not_date by blast
  then show ?thesis by (simp add: getitem_map_columns only_def)
qed

lemma getitem_reserved_after:
  assumes "col \<in> set reserved_fields"
  shows "getitem col (map_columns (\<lambda>n c. only (date_time_fields @ [''business_day'']) h n
                                     (only numeric_fields g n c)) b)
         = map g (getitem col b)"
proof -
  have 1: "col \<in> set numeric_fields" using assms reserved_numeric by blast
  have 2: "col \<notin> set (date_time_fields @ [''business_day''])" using assms reserved_not_date by blast
  show ?thesis using 1 2 by (simp add: getitem_map_columns only_def)
qed

text \<open>
  The stage as a whole: it returns exactly on the batches in \<open>completes\<close>, and what it
  returns is the batch with every column converted according to its label.
\<close>

lemma coercion_stage_Inr:
  "(coercion_stage L b = Inr b') = (completes L b \<and> b' = map_columns (coerce L) b)"
proof -
  let ?D = "date_time_fields @ [''business_day'']"
  let ?h1 = "only numeric_fields (to_numeric L)"
  let ?h2 = "only ?D (result (parse_datetime_with_tz L))"
  let ?h3 = "only reserved_fields (result (to_Int64 L))"
  let ?h4 = "only string_columns (astype_str L)"
  define c1 where "c1 = list_all (\<lambda>col. occurrences col b \<le> 1) numeric_fields"
  define c2 where "c2 = list_all (\<lambda>col. occurrences col b \<le> 1 \<and>
                     list_all (succeeds (parse_datetime_with_tz L)) (getitem col b)) ?D"
  define c3 where "c3 = list_all (\<lambda>col. occurrences col b \<le> 1 \<and>
                     list_all (\<lambda>s. succeeds (to_Int64 L) (to_numeric L s)) (getitem col b)) reserved_fields"
  define b1 where "b1 = map_columns ?h1 b"
  define b2 where "b2 = map_columns ?h2 b1"
  define b3 where "b3 = map_columns ?h3 b2"
  have comp: "completes L b = (c1 \<and> c2 \<and> c3)"
    unfolding c1_def c2_def c3_def by (auto simp: completes_def typed_names_def list_all_iff)
  have b2: "b2 = map_columns (\<lambda>n c. ?h2 n (?h1 n c)) b"
    by (simp add: b2_def b1_def map_columns_comp)
  have n: "\<And>x. (numeric_loop L b = Inr x) = (c1 \<and> x = b1)"
    unfolding c1_def b1_def by (rule numeric_loop_Inr)
  have "list_all (\<lambda>col. occurrences col b1 \<le> 1 \<and>
                     list_all (succeeds (parse_datetime_with_tz L)) (getitem col b1)) ?D = c2"
    unfolding c2_def b1_def
    by (auto simp: list_all_iff getitem_date_after simp del: set_append)
  then have d: "\<And>x. (date_loop L b1 = Inr x) = (c2 \<and> x = b2)"
    unfolding b2_def by (simp only: date_loop_Inr [of L b1])
  have "list_all (\<lambda>col. occurrences col b2 \<le> 1 \<and>
                     list_all (succeeds (to_Int64 L)) (getitem col b2)) reserved_fields = c3"
    unfolding c3_def b2
    by (auto simp: list_all_iff getitem_reserved_after)
  then have r: "\<And>x. (reserved_loop L b2 = Inr x) = (c3 \<and> x = b3)"
    unfolding b3_def by (simp only: reserved_loop_Inr [of L b2])
  have "coerce L = (\<lambda>n c. ?h4 n (?h3 n (?h2 n (?h1 n c))))"
    by (simp add: fun_eq_iff coerce_only)
  then have "map_columns ?h4 b3 = map_columns (coerce L) b"
    by (simp add: b3_def b2 map_columns_comp)
  then have s: "string_loop L b3 = Inr (map_columns (coerce L) b)"
    by (simp only: string_loop_eq)
  have "(coercion_stage L b = Inr b') =
          (\<exists>x3. (\<exists>x2. (\<exists>x1. numeric_loop L b = Inr x1 \<and> date_loop L x1 = Inr x2)
                  \<and> reserved_loop L x2 = Inr x3) \<and> string_loop L x3 = Inr b')"
    by (simp only: coercion_stage_def and_then_Inr)
  also have "\<dots> = (c1 \<and> c2 \<and> c3 \<and> string_loop L b3 = Inr b')"
    using n d r by auto
  finally show ?thesis using s comp by auto
qed

lemma coerce_other: "n \<notin> set group_names \<Longrightarrow> coerce L n c = c"
  by (simp add: coerce_def group_names_def Let_def)

lemma coerce_numeric_only:
  assumes "n \<in> set numeric_fields" "n \<notin> set reserved_fields"
  shows "coerce L n c = to_numeric L c"
proof -
  have 1: "n \<notin> set (date_time_fields @ [''business_day''])" using assms(1) numeric_not_date by blast
  have 2: "n \<notin> set string_columns" using assms(1) numeric_not_string by blast
  show ?thesis using assms 1 2 by (simp add: coerce_only only_def)
qed


lemma coerce_string:
  assumes "n \<in> set string_columns"
  shows "coerce L n c = astype_str L c"
proof -
  have 0: "n \<notin> set numeric_fields" using assms numeric_not_string by blast
  have 1: "n \<notin> set (date_time_fields @ [''business_day''])"
    using assms by (auto simp: string_columns_def date_time_fields_def)
  have 2: "n \<notin> set reserved_fields" using assms reserved_not_string by blast
  show ?thesis using assms 0 1 2 by (simp add: coerce_only only_def)
qed


lemma for_each_pure_error:
  "for_each (convert_column (\<lambda>s. Inr (g s))) cols b = Inl e \<Longrightarrow> e = TypeError"
proof (induction cols arbitrary: b)
  case Nil
  then show ?case by simp
next
  case (Cons col cols)
  show ?case
  proof (cases "convert_column (\<lambda>s. Inr (g s)) col b")
    case (Inl e')
    then have "e' = TypeError"
      by (auto simp: convert_column_def split: if_splits list.splits)
    with Inl Cons.prems show ?thesis by simp
  next
    case (Inr b1)
    with Cons.prems have "for_each (convert_column (\<lambda>s. Inr (g s))) cols b1 = Inl e" by simp
    then show ?thesis by (rule Cons.IH)
  qed
qed

lemma numeric_loop_repeated:
  assumes "\<not> list_all (\<lambda>col. occurrences col b \<le> 1) numeric_fields"
  shows "numeric_loop L b = Inl TypeError"
proof (cases "numeric_loop L b")
  case (Inl e)
  then have "e = TypeError" unfolding numeric_loop_def by (rule for_each_pure_error)
  with Inl show ?thesis by simp
next
  case (Inr b')
  then show ?thesis using assms by (simp add: numeric_loop_Inr)
qed



lemma sample_simps [simp]:
  "to_numeric sample = sample_to_numeric"
  "astype_Int64 sample = sample_astype_Int64"
  "to_datetime_date sample = sample_to_datetime_date"
  "str_value sample = sample_str"
  by (simp_all add: sample_def)

lemma sample_coerces_to_missing:
  "parse_decimal u = None \<Longrightarrow> coerces_to_missing sample u"
  by (simp add: coerces_to_missing_def sample_to_numeric_def)






section \<open>Type Coercion Stage: results\<close>




text \<open>
  Claim C5, as stated, fails when the label of a numeric-amount column stands over two
  columns of the batch: \<^verbatim>\<open>pd.to_numeric\<close> is then handed a \<^verbatim>\<open>DataFrame\<close> and raises
  \<^verbatim>\<open>TypeError\<close>, whatever the cells hold.
\<close>

theorem numeric_loop_raises:
  "\<forall>L. numeric_loop L \<lparr>nrows = 1, columns = [(''total_amount'', [Text ''N/A'']),
                                              (''total_amount'', [Text ''2''])]\<rparr>
        = Inl TypeError"
proof -
  let ?b = "\<lparr>nrows = 1, columns = [(''total_amount'', [Text ''N/A'']),
                                   (''total_amount'', [Text ''2''])]\<rparr>"
  have "\<not> list_all (\<lambda>col. occurrences col ?b \<le> 1) numeric_fields"
    by (simp add: numeric_fields_def occurrences_def getitem_def)
  then show ?thesis by (simp add: numeric_loop_repeated)
qed

text \<open>
  Claim C5, amended. When no label of the numeric-amount group stands over two columns
  of the batch, numeric coercion raises no error, keeps the row count and the labels,
  and puts in place of every column of the group what \<^verbatim>\<open>pd.to_numeric\<close> with
  \<^verbatim>\<open>errors="coerce"\<close> returns for it: a cell holding a text that the library cannot
  parse, such as \<^verbatim>\<open>N/A\<close>, then holds the missing value. When such a label does stand
  over two columns, numeric coercion raises \<^verbatim>\<open>TypeError\<close>.
\<close>

theorem numeric_loop_coerces:
  "(list_all (\<lambda>col. occurrences col b \<le> 1) numeric_fields \<longrightarrow>
      (\<exists>b'. numeric_loop L b = Inr b' \<and> nrows b' = nrows b \<and> names b' = names b \<and>
         (\<forall>i < length (columns b). fst (columns b ! i) \<in> set numeric_fields \<longrightarrow>
            snd (columns b' ! i) = to_numeric L (snd (columns b ! i)) \<and>
            (\<forall>u. coerces_to_missing L u \<longrightarrow>
               length (snd (columns b' ! i)) = length (snd (columns b ! i)) \<and>
               (\<forall>k < length (snd (columns b ! i)).
                  snd (columns b ! i) ! k = Text u \<longrightarrow> snd (columns b' ! i) ! k = Missing)))))
   \<and> (\<not> list_all (\<lambda>col. occurrences col b \<le> 1) numeric_fields \<longrightarrow>
        numeric_loop L b = Inl TypeError)"
proof -
  let ?b' = "map_columns (only numeric_fields (to_numeric L)) b"
  have col: "snd (columns ?b' ! i) = to_numeric L (snd (columns b ! i))"
    if "i < length (columns b)" "fst (columns b ! i) \<in> set numeric_fields" for i
    using that by (simp add: nth_map_columns only_def)
  have cell: "length (snd (columns ?b' ! i)) = length (snd (columns b ! i)) \<and>
              (\<forall>k < length (snd (columns b ! i)).
                  snd (columns b ! i) ! k = Text u \<longrightarrow> snd (columns ?b' ! i) ! k = Missing)"
    if "i < length (columns b)" "fst (columns b ! i) \<in> set numeric_fields"
       "coerces_to_missing L u" for i u
    using that(3) unfolding col [OF that(1,2)] coerces_to_missing_def by blast
  have "numeric_loop L b = Inr ?b'"
    if "list_all (\<lambda>col. occurrences col b \<le> 1) numeric_fields"
    using that by (simp add: numeric_loop_Inr)
  then show ?thesis using col cell numeric_loop_repeated [of b L] by auto
qed

theorem numeric_loop_coerces_witness:
  "numeric_loop sample \<lparr>nrows = 2, columns = [(''total_amount'', [Text ''N/A'', Text ''12.5''])]\<rparr>
     = Inr \<lparr>nrows = 2, columns = [(''total_amount'', [Missing, Float64 (125, 1)])]\<rparr>
   \<and> to_numeric sample [Text ''N/A'', Text ''12.5''] ! 0 = Missing"
proof -
  let ?b = "\<lparr>nrows = 2, columns = [(''total_amount'', [Text ''N/A'', Text ''12.5''])]\<rparr>"
  have u: "list_all (\<lambda>col. occurrences col ?b \<le> 1) numeric_fields"
    by (simp add: numeric_fields_def occurrences_def getitem_def)
  have p: "parse_decimal ''N/A'' = None" by code_simp
  have q: "parse_decimal ''12.5'' = Some (125, 1)" by code_simp
  have m: "coerces_to_missing sample ''N/A''" by (rule sample_coerces_to_missing [OF p])
  have n: "''total_amount'' \<in> set numeric_fields" by (simp add: numeric_fields_def)
  from numeric_loop_coerces [of ?b sample] u
  obtain b' where b': "numeric_loop sample ?b = Inr b'" "nrows b' = nrows ?b" "names b' = names ?b"
    and c: "snd (columns b' ! 0) = to_numeric sample (snd (columns ?b ! 0))"
    using n by auto
  have v: "to_numeric sample (snd (columns ?b ! 0)) = [Missing, Float64 (125, 1)]"
    by (simp add: sample_to_numeric_def p q)
  obtain x where x: "columns b' = [x]"
    using b'(3) by (cases "columns b'") (auto simp: names_def)
  have f: "fst x = ''total_amount''" using b'(3) x by (simp add: names_def)
  have "columns b' = [(''total_amount'', [Missing, Float64 (125, 1)])]"
    using x f c v by (simp add: prod_eq_iff)
  then have "b' = \<lparr>nrows = 2, columns = [(''total_amount'', [Missing, Float64 (125, 1)])]\<rparr>"
    using b'(2) by (cases b') simp
  then show ?thesis using b'(1) v by simp
qed



text \<open>
  Claim C8. A guarded statement of the stage whose label is absent from the batch
  returns the batch as it is and raises nothing, so the stage returns a batch that
  has none of the labels of the four groups as it is. When the stage returns, the
  row count and the labels are those of the batch, and every column whose label is
  in none of the four groups holds the cells it held.
\<close>

theorem coercion_stage_frame:
  "(col \<notin> set (names b) \<longrightarrow> convert_column f col b = Inr b \<and> force_text L col b = Inr b)
   \<and> (set (names b) \<inter> set group_names = {} \<longrightarrow> coercion_stage L b = Inr b)
   \<and> (coercion_stage L b = Inr b' \<longrightarrow>
        nrows b' = nrows b \<and> names b' = names b \<and> length (columns b') = length (columns b) \<and>
        (\<forall>i < length (columns b). fst (columns b ! i) \<notin> set group_names \<longrightarrow>
           columns b' ! i = columns b ! i))"
proof -
  have 1: "convert_column f col b = Inr b \<and> force_text L col b = Inr b"
    if "col \<notin> set (names b)"
    using that by (simp add: convert_column_def force_text_def)
  have 2: "coercion_stage L b = Inr b" if d: "set (names b) \<inter> set group_names = {}"
  proof -
    have g: "getitem col b = []" if "col \<in> set group_names" for col
      using d that in_names_iff [of col b] by blast
    have t: "set typed_names \<subseteq> set group_names"
      by (auto simp: typed_names_def group_names_def)
    have c: "completes L b"
      using g t by (auto simp: completes_def list_all_iff occurrences_def group_names_def)
    have "\<And>n c. (n, c) \<in> set (columns b) \<Longrightarrow> coerce L n c = c"
    proof -
      fix n c assume "(n, c) \<in> set (columns b)"
      then have "n \<in> set (names b)" by (force simp: names_def)
      then have "n \<notin> set group_names" using d by blast
      then show "coerce L n c = c" by (rule coerce_other)
    qed
    then have "map (\<lambda>(n, c). (n, coerce L n c)) (columns b) = columns b"
      by (intro map_idI) auto
    then have "map_columns (coerce L) b = b" by (simp add: map_columns_def)
    then show ?thesis using c by (simp add: coercion_stage_Inr)
  qed
  have 3: "nrows b' = nrows b \<and> names b' = names b \<and> length (columns b') = length (columns b) \<and>
        (\<forall>i < length (columns b). fst (columns b ! i) \<notin> set group_names \<longrightarrow>
           columns b' ! i = columns b ! i)"
    if "coercion_stage L b = Inr b'"
  proof -
    from that have b': "b' = map_columns (coerce L) b" by (simp add: coercion_stage_Inr)
    show ?thesis unfolding b' by (simp add: nth_map_columns coerce_other)
  qed
  show ?thesis using 1 2 3 by blast
qed

theorem coercion_stage_frame_witness:
  "convert_column (to_Int64 sample) ''reserved16''
     \<lparr>nrows = 1, columns = [(''merchant'', [Text ''0042'']), (''total_amount'', [Text ''5.5''])]\<rparr>
   = Inr \<lparr>nrows = 1, columns = [(''merchant'', [Text ''0042'']), (''total_amount'', [Text ''5.5''])]\<rparr>
   \<and> coercion_stage sample \<lparr>nrows = 1, columns = [(''merchant'', [Text ''0042''])]\<rparr>
       = Inr \<lparr>nrows = 1, columns = [(''merchant'', [Text ''0042''])]\<rparr>
   \<and> coercion_stage sample
       \<lparr>nrows = 1, columns = [(''merchant'', [Text ''0042'']), (''total_amount'', [Text ''5.5''])]\<rparr>
     = Inr \<lparr>nrows = 1, columns = [(''merchant'', [Text ''0042'']), (''total_amount'', [Float64 (55, 1)])]\<rparr>
   \<and> columns \<lparr>nrows = 1, columns = [(''merchant'', [Text ''0042'']), (''total_amount'', [Float64 (55, 1)])]\<rparr> ! 0
       = (''merchant'', [Text ''0042''])"
proof -
  let ?b = "\<lparr>nrows = 1, columns = [(''merchant'', [Text ''0042'']), (''total_amount'', [Text ''5.5''])]\<rparr>"
  let ?b' = "\<lparr>nrows = 1, columns = [(''merchant'', [Text ''0042'']), (''total_amount'', [Float64 (55, 1)])]\<rparr>"
  let ?m = "\<lparr>nrows = 1, columns = [(''merchant'', [Text ''0042''])]\<rparr> :: cell batch"
  have a: "''reserved16'' \<notin> set (names ?b)" by (simp add: names_def)
  have d: "set (names ?m) \<inter> set group_names = {}"
    by (simp add: names_def group_names_def numeric_fields_def date_time_fields_def
        reserved_fields_def string_columns_def)
  have s: "coercion_stage sample ?b = Inr ?b'" by code_simp
  have n: "fst (columns ?b ! 0) \<notin> set group_names"
    by (simp add: group_names_def numeric_fields_def date_time_fields_def
        reserved_fields_def string_columns_def)
  have 1: "convert_column (to_Int64 sample) ''reserved16'' ?b = Inr ?b"
    using coercion_stage_frame [of "''reserved16''" ?b "to_Int64 sample" sample ?b'] a by blast
  have 2: "coercion_stage sample ?m = Inr ?m"
    using coercion_stage_frame [of "''reserved16''" ?m "to_Int64 sample" sample ?m] d by blast
  have "\<forall>i < length (columns ?b). fst (columns ?b ! i) \<notin> set group_names \<longrightarrow>
           columns ?b' ! i = columns ?b ! i"
    using coercion_stage_frame [of "''reserved16''" ?b "to_Int64 sample" sample ?b'] s by blast
  then have 3: "columns ?b' ! 0 = columns ?b ! 0" using n by simp
  show ?thesis using 1 2 3 s by simp
qed

text \<open>
  Claim C10. The forced-text recast raises nothing and keeps row count and labels.
  Every column labelled by one of the five forced-text names then holds text in every
  cell: the text of the cell as \<^verbatim>\<open>str\<close> gives it, which for a missing value is the
  three letters \<^verbatim>\<open>nan\<close>. No cell of such a column is missing afterwards.
\<close>

theorem string_loop_nan:
  "\<exists>b'. string_loop L b = Inr b' \<and> nrows b' = nrows b \<and> names b' = names b \<and>
     (\<forall>i < length (columns b). fst (columns b ! i) \<in> set string_columns \<longrightarrow>
        snd (columns b' ! i) = map (\<lambda>c. Text (py_str L c)) (snd (columns b ! i)) \<and>
        Missing \<notin> set (snd (columns b' ! i)) \<and>
        (\<forall>k < length (snd (columns b ! i)).
           snd (columns b ! i) ! k = Missing \<longrightarrow> snd (columns b' ! i) ! k = Text ''nan''))"
proof -
  let ?b' = "map_columns (only string_columns (astype_str L)) b"
  have e: "string_loop L b = Inr ?b'" by (rule string_loop_eq)
  have c: "snd (columns ?b' ! i) = map (\<lambda>c. Text (py_str L c)) (snd (columns b ! i))"
    if "i < length (columns b)" "fst (columns b ! i) \<in> set string_columns" for i
    using that by (simp add: nth_map_columns only_def astype_str_def)
  have m: "Missing \<notin> set (map (\<lambda>c. Text (py_str L c)) s)" for s by auto
  have n: "map (\<lambda>c. Text (py_str L c)) s ! k = Text ''nan''"
    if "k < length s" "s ! k = Missing" for s k
    using that by (simp add: py_str_def)
  show ?thesis using e c m n by (intro exI [of _ ?b']) simp
qed

theorem string_loop_nan_witness:
  "string_loop sample \<lparr>nrows = 2, columns = [(''card_number'', [Missing, Text ''4111''])]\<rparr>
     = Inr \<lparr>nrows = 2, columns = [(''card_number'', [Text ''nan'', Text ''4111''])]\<rparr>"
proof -
  let ?b = "\<lparr>nrows = 2, columns = [(''card_number'', [Missing, Text ''4111''])]\<rparr>"
  have s: "''card_number'' \<in> set string_columns" by (simp add: string_columns_def)
  from string_loop_nan [of sample ?b]
  obtain b' where b': "string_loop sample ?b = Inr b'" "nrows b' = nrows ?b" "names b' = names ?b"
    and c: "snd (columns b' ! 0) = map (\<lambda>c. Text (py_str sample c)) (snd (columns ?b ! 0))"
    using s by auto
  obtain x where x: "columns b' = [x]"
    using b'(3) by (cases "columns b'") (auto simp: names_def)
  have f: "fst x = ''card_number''" using b'(3) x by (simp add: names_def)
  have "columns b' = [(''card_number'', [Text ''nan'', Text ''4111''])]"
    using x f c by (simp add: prod_eq_iff py_str_def)
  then have "b' = \<lparr>nrows = 2, columns = [(''card_number'', [Text ''nan'', Text ''4111''])]\<rparr>"
    using b'(2) by (cases b') simp
  then show ?thesis using b'(1) by simp
qed


section \<open>Dates: properties\<close>
















end
